theory Spec2Isabelle
  imports Main "HOL-Library.Word"
begin

unbundle bit_operations_syntax

section \<open>Machine data\<close>

text \<open>
  \<open>size_t\<close> is the 64-bit unsigned integer of the platform the channel is written for
  (the frame header is \<open>sizeof(size_t)\<close> = 8 bytes); its arithmetic wraps. Memory is
  made of bytes.
\<close>

type_synonym byte = "8 word"
type_synonym size_t = "64 word"

text \<open>
  The object representation of a \<open>size_t\<close>, as \<open>memcpy\<close> from \<open>&len\<close> sees it and as
  \<open>*static_cast<size_t *>(len_bytes)\<close> reads it back: eight bytes, least significant
  first.
\<close>

definition size_t_bytes :: "size_t \<Rightarrow> byte list" where
  "size_t_bytes w = map (\<lambda>i. ucast (drop_bit (8 * i) w)) [0..<8]"

definition size_t_of_bytes :: "byte list \<Rightarrow> size_t" where
  "size_t_of_bytes bs = foldr (\<lambda>b w. ucast b OR push_bit 8 w) bs 0"

text \<open>
  A \<open>void *\<close> handed in by a caller is modelled by the memory seen from that address:
  \<open>p i\<close> is the byte at \<open>p + i\<close>. \<open>fetch p off k\<close> are the \<open>k\<close> bytes read from
  \<open>p + off\<close> on.
\<close>

type_synonym pointer = "nat \<Rightarrow> byte"

definition fetch :: "pointer \<Rightarrow> nat \<Rightarrow> nat \<Rightarrow> byte list" where
  "fetch p off k = map (\<lambda>i. p (off + i)) [0..<k]"

text \<open>
  \<open>memcpy(dst + off, src, k)\<close> for an object \<open>dst\<close> whose extent the program knows (the
  shared data region of \<open>capacity\<close> bytes, a \<open>malloc\<close>ed block): \<open>src\<close> lists the bytes
  that can be read from the source pointer on. A copy that leaves either object is
  undefined behaviour in C; here it is \<open>None\<close>.
\<close>

definition memcpy :: "byte list \<Rightarrow> nat \<Rightarrow> byte list \<Rightarrow> nat \<Rightarrow> byte list option" where
  "memcpy dst off src k =
     (if off + k \<le> length dst \<and> k \<le> length src
      then Some (take off dst @ take k src @ drop (off + k) dst)
      else None)"

text \<open>
  \<open>malloc(k)\<close>: a block of \<open>k\<close> bytes. Its contents are indeterminate in C; the channel
  overwrites every byte of a block before it reads it, or leaves the block's bounds.
\<close>

definition malloc :: "nat \<Rightarrow> byte list" where
  "malloc k = replicate k 0"

section \<open>Owned memory region (buffer.h)\<close>

datatype buffer_type = MALLOC | MMAP

text \<open>The private members of \<open>class buffer\<close>: \<open>void *buf; size_t len; buffer_type type\<close>.\<close>

record buffer =
  buf :: nat
  buf_len :: size_t
  buf_type :: buffer_type

text \<open>
  \<open>buffer(buffer &&t) = default\<close>: the defaulted move constructor moves member by
  member, which for a raw pointer, a \<open>size_t\<close> and an enum is a copy. It returns the
  new object together with the moved-from object as the constructor leaves it.
\<close>

definition buffer_move :: "buffer \<Rightarrow> buffer \<times> buffer" where
  "buffer_move t = (\<lparr>buf = buf t, buf_len = buf_len t, buf_type = buf_type t\<rparr>, t)"

text \<open>The calls that give memory back to the system, in the order they are made.\<close>

datatype release = Free nat | Munmap nat size_t

text \<open>
  Modelled from the spec: the destructor \<open>~buffer\<close>, declared in buffer.h and defined in
  buffer.cpp, which is missing. "Destructor releases memory via the origin-appropriate
  mechanism": \<open>free\<close> for a heap block, \<open>munmap\<close> for a mapping.
\<close>

definition buffer_destroy :: "buffer \<Rightarrow> release list \<Rightarrow> release list" where
  "buffer_destroy b log =
     log @ [case buf_type b of MALLOC \<Rightarrow> Free (buf b) | MMAP \<Rightarrow> Munmap (buf b) (buf_len b)]"

fun released_addr :: "release \<Rightarrow> nat" where
  "released_addr (Free a) = a"
| "released_addr (Munmap a l) = a"

definition times_released :: "nat \<Rightarrow> release list \<Rightarrow> nat" where
  "times_released a log = length (filter (\<lambda>r. released_addr r = a) log)"

section \<open>Process-shared semaphore\<close>

datatype error = Overflow_error | Out_of_range | Runtime_error

text \<open>
  Modelled from the spec: the semaphore class (semaphore.h is missing). The count at
  which \<open>post\<close> overflows is not given; it is the field \<open>value_max\<close>.
\<close>

record semaphore =
  sem_count :: nat
  value_max :: nat

text \<open>
  Modelled from the spec: "\<open>post()\<close> increments and wakes one waiter if any; fails if the
  underlying count would overflow".
\<close>

definition post :: "semaphore \<Rightarrow> error + semaphore" where
  "post s = (if sem_count s < value_max s then Inr (s\<lparr>sem_count := sem_count s + 1\<rparr>)
             else Inl Runtime_error)"

text \<open>
  Modelled from the spec: "\<open>wait()\<close> blocks the calling process until count > 0, then
  atomically decrements". With no other process running, a wait on a count of zero
  never returns: \<open>None\<close>.
\<close>

definition wait :: "semaphore \<Rightarrow> semaphore option" where
  "wait s = (if 0 < sem_count s then Some (s\<lparr>sem_count := sem_count s - 1\<rparr>) else None)"

text \<open>
  Modelled from the spec: "\<open>trywait()\<close> attempts the same decrement without blocking and
  reports whether it succeeded".
\<close>

definition trywait :: "semaphore \<Rightarrow> bool \<times> semaphore" where
  "trywait s = (if 0 < sem_count s then (True, s\<lparr>sem_count := sem_count s - 1\<rparr>)
                else (False, s))"

section \<open>Ring-buffer channel (channel.cpp)\<close>

text \<open>
  The members of \<open>class channel\<close> that \<open>send_bytes\<close> and \<open>receive_bytes\<close> use. The
  atomics \<open>start\<close>, \<open>end\<close> and \<open>full\<close> and the data region \<open>shared_mem\<close> live in shared
  memory; \<open>end\<close> is written \<open>end_off\<close> here.
\<close>

record channel =
  lock :: semaphore
  n_unread :: semaphore
  capacity :: size_t
  shared_mem :: "byte list"
  start :: size_t
  end_off :: size_t
  full :: bool

text \<open>
  Modelled from the spec: \<open>util::get_shared_mem\<close> (util.h is missing), the provider of
  shared segments, "\<open>acquire(length, is_metadata) -> base pointer\<close>". The segment is a
  fresh anonymous mapping, which the system fills with zero bytes.
\<close>

definition get_shared_mem :: "nat \<Rightarrow> byte list" where
  "get_shared_mem k = replicate k 0"

text \<open>
  Modelled from the spec: the constructor of the semaphore class, "\<open>construct(initial_count)\<close>
  places a semaphore in a shared region and initializes its count". The first argument
  is the bound at which \<open>post\<close> overflows.
\<close>

definition semaphore_init :: "nat \<Rightarrow> nat \<Rightarrow> semaphore" where
  "semaphore_init vmax n = \<lparr>sem_count = n, value_max = vmax\<rparr>"

text \<open>
  The constructor \<open>channel(size)\<close>: \<open>lock(1)\<close>, \<open>n_unread()\<close>, \<open>capacity(size)\<close>, a shared
  region of \<open>size\<close> bytes, \<open>start = end = 0\<close> and \<open>full = false\<close>. The first argument is
  the overflow bound of the two semaphores.
\<close>

definition channel_init :: "nat \<Rightarrow> size_t \<Rightarrow> channel" where
  "channel_init vmax sz =
     \<lparr>lock = semaphore_init vmax 1,
      n_unread = semaphore_init vmax 0,
      capacity = sz,
      shared_mem = get_shared_mem (unat sz),
      start = 0, end_off = 0, full = False\<rparr>"

text \<open>
  What a call does: it returns a value, it throws, it never returns (a wait on a
  semaphore nobody posts), or it runs into undefined behaviour (a copy outside an
  object, a division by zero), after which nothing is known about the state.
\<close>

datatype 'a outcome =
    Returns 'a channel
  | Throws error channel
  | Blocks
  | Undefined_behaviour

text \<open>
  Modelled from the spec: \<open>acquire_lock\<close> and \<open>release_lock\<close> (their definitions are
  missing). "\<open>mutex\<close>: binary semaphore guarding all mutations": acquiring waits on \<open>lock\<close>,
  releasing posts it.
\<close>

definition acquire_lock :: "channel \<Rightarrow> channel option" where
  "acquire_lock ch = map_option (\<lambda>s. ch\<lparr>lock := s\<rparr>) (wait (lock ch))"

definition release_lock :: "channel \<Rightarrow> error + channel" where
  "release_lock ch = map_sum id (\<lambda>s. ch\<lparr>lock := s\<rparr>) (post (lock ch))"

text \<open>\<open>release_lock(); throw e;\<close>\<close>

definition release_and_throw :: "error \<Rightarrow> channel \<Rightarrow> 'a outcome" where
  "release_and_throw e ch =
     (case release_lock ch of Inl e' \<Rightarrow> Throws e' ch | Inr ch' \<Rightarrow> Throws e ch')"

text \<open>\<open>release_lock(); return v;\<close>\<close>

definition release_and_return :: "'a \<Rightarrow> channel \<Rightarrow> 'a outcome" where
  "release_and_return v ch =
     (case release_lock ch of Inl e' \<Rightarrow> Throws e' ch | Inr ch' \<Rightarrow> Returns v ch')"

text \<open>Lines 53 to 61 of \<open>send_bytes\<close>: the space still free in the data region.\<close>

definition available_space :: "channel \<Rightarrow> size_t" where
  "available_space ch =
     (let head = start ch; tail = end_off ch
      in if head < tail then capacity ch - (tail - head)
         else if head > tail then head - tail
         else if \<not> full ch then capacity ch
         else 0)"

text \<open>
  Lines 67 to 80 of \<open>send_bytes\<close>: the length prefix is copied to \<open>tail\<close>, in two pieces
  when \<open>new_end > tail\<close> fails.
\<close>

definition send_len :: "size_t \<Rightarrow> size_t \<Rightarrow> size_t \<Rightarrow> byte list \<Rightarrow> byte list option" where
  "send_len cap tail len mem =
     (let size_t_size = 8;
          len_bytes = size_t_bytes len;
          new_end = (tail + size_t_size) mod cap
      in if new_end > tail then memcpy mem (unat tail) len_bytes (unat size_t_size)
         else
           let first_half_len = cap - tail;
               second_half_len = size_t_size - first_half_len
           in (case memcpy mem (unat tail) len_bytes (unat first_half_len) of
                 None \<Rightarrow> None
               | Some mem' \<Rightarrow>
                   memcpy mem' 0 (drop (unat first_half_len) len_bytes) (unat second_half_len)))"

text \<open>
  Lines 82 to 95 of \<open>send_bytes\<close>: the payload is copied to the cursor \<open>tail\<close> behind the
  prefix. The copy that does not wrap has the size \<open>n\<close>, as in the source.
\<close>

definition send_payload ::
  "size_t \<Rightarrow> size_t \<Rightarrow> pointer \<Rightarrow> size_t \<Rightarrow> size_t \<Rightarrow> byte list \<Rightarrow> byte list option" where
  "send_payload cap tail bytes len n mem =
     (let new_end = (tail + len) mod cap
      in if new_end > tail then memcpy mem (unat tail) (fetch bytes 0 (unat n)) (unat n)
         else
           let first_half_len = cap - tail;
               second_half_len = len - first_half_len
           in (case memcpy mem (unat tail) (fetch bytes 0 (unat first_half_len))
                      (unat first_half_len) of
                 None \<Rightarrow> None
               | Some mem' \<Rightarrow>
                   memcpy mem' 0 (fetch bytes (unat first_half_len) (unat second_half_len))
                     (unat second_half_len)))"

text \<open>
  \<open>channel::send_bytes\<close>. The remainder \<open>% capacity\<close> divides by zero when the capacity
  is zero, which is undefined behaviour.
\<close>

definition send_bytes :: "pointer \<Rightarrow> size_t \<Rightarrow> channel \<Rightarrow> unit outcome" where
  "send_bytes bytes len ch0 =
     (if len = 0 then Returns () ch0
      else
        (case acquire_lock ch0 of
           None \<Rightarrow> Blocks
         | Some ch \<Rightarrow>
            (let size_t_size = 8;
                 n = size_t_size + len;
                 tail = end_off ch;
                 available = available_space ch
             in if n > available then release_and_throw Overflow_error ch
                else if capacity ch = 0 then Undefined_behaviour
                else
                  (case send_len (capacity ch) tail len (shared_mem ch) of
                     None \<Rightarrow> Undefined_behaviour
                   | Some mem1 \<Rightarrow>
                      (let new_end = (tail + size_t_size) mod capacity ch
                       in (case send_payload (capacity ch) new_end bytes len n mem1 of
                             None \<Rightarrow> Undefined_behaviour
                           | Some mem2 \<Rightarrow>
                              (let new_end' = (new_end + len) mod capacity ch;
                                   ch1 = ch\<lparr>shared_mem := mem2,
                                            full := (if n = available then True else full ch),
                                            end_off := new_end'\<rparr>
                               in (case post (n_unread ch1) of
                                     Inl e \<Rightarrow> release_and_throw e ch1
                                   | Inr s \<Rightarrow>
                                       release_and_return () (ch1\<lparr>n_unread := s\<rparr>)))))))))"

text \<open>
  Lines 132 to 149 of \<open>receive_bytes\<close>: the length prefix is copied from \<open>head\<close> into a
  fresh block of 8 bytes.
\<close>

definition receive_len :: "size_t \<Rightarrow> size_t \<Rightarrow> byte list \<Rightarrow> byte list option" where
  "receive_len cap head mem =
     (let size_t_size = 8;
          len_bytes = malloc (unat size_t_size);
          new_start = (head + size_t_size) mod cap
      in if new_start > head then memcpy len_bytes 0 (drop (unat head) mem) (unat size_t_size)
         else
           let first_half_len = cap - head;
               second_half_len = size_t_size - first_half_len
           in (case memcpy len_bytes 0 (drop (unat head) mem) (unat first_half_len) of
                 None \<Rightarrow> None
               | Some len_bytes' \<Rightarrow>
                   memcpy len_bytes' (unat first_half_len) mem (unat second_half_len)))"

text \<open>
  Lines 151 to 167 of \<open>receive_bytes\<close>: the payload is copied from the cursor \<open>head\<close>
  behind the prefix into a fresh block of \<open>len\<close> bytes.
\<close>

definition receive_payload :: "size_t \<Rightarrow> size_t \<Rightarrow> size_t \<Rightarrow> byte list \<Rightarrow> byte list option" where
  "receive_payload cap head len mem =
     (let bytes = malloc (unat len);
          new_start = (head + len) mod cap
      in if new_start > head then memcpy bytes 0 (drop (unat head) mem) (unat len)
         else
           let first_half_len = cap - head;
               second_half_len = len - first_half_len
           in (case memcpy bytes 0 (drop (unat head) mem) (unat first_half_len) of
                 None \<Rightarrow> None
               | Some bytes' \<Rightarrow>
                   memcpy bytes' (unat first_half_len) mem (unat second_half_len)))"

text \<open>
  \<open>channel::receive_bytes\<close>. The value returned is the contents of the buffer \<open>buf\<close>.
\<close>

definition receive_locked :: "channel \<Rightarrow> byte list outcome" where
  "receive_locked ch0 =
     (case acquire_lock ch0 of
        None \<Rightarrow> Blocks
      | Some ch \<Rightarrow>
         (if capacity ch = 0 then Undefined_behaviour
          else
            (let size_t_size = 8;
                 head = start ch
             in (case receive_len (capacity ch) head (shared_mem ch) of
                   None \<Rightarrow> Undefined_behaviour
                 | Some len_bytes \<Rightarrow>
                    (let new_start = (head + size_t_size) mod capacity ch;
                         len = size_t_of_bytes len_bytes
                     in (case receive_payload (capacity ch) new_start len (shared_mem ch) of
                           None \<Rightarrow> Undefined_behaviour
                         | Some bytes \<Rightarrow>
                            (let new_start' = (new_start + len) mod capacity ch
                             in release_and_return bytes
                                  (ch\<lparr>full := False, start := new_start'\<rparr>))))))))"

definition receive_bytes :: "bool \<Rightarrow> channel \<Rightarrow> byte list outcome" where
  "receive_bytes block ch =
     (if block then
        (case wait (n_unread ch) of
           None \<Rightarrow> Blocks
         | Some s \<Rightarrow> receive_locked (ch\<lparr>n_unread := s\<rparr>))
      else
        (case trywait (n_unread ch) of
           (False, s) \<Rightarrow> Throws Out_of_range ch
         | (True, s) \<Rightarrow> receive_locked (ch\<lparr>n_unread := s\<rparr>)))"

section \<open>Runs of one process\<close>

text \<open>
  A semaphore used as a mutex is free for the caller when its count is positive and
  within the bound of the semaphore.
\<close>

definition unlocked :: "channel \<Rightarrow> bool" where
  "unlocked ch = (0 < sem_count (lock ch) \<and> sem_count (lock ch) \<le> value_max (lock ch))"

text \<open>
  The memory of a caller at the address of an array holding \<open>bs\<close>: the bytes of \<open>bs\<close>,
  and zero bytes behind them.
\<close>

definition bytes_at :: "byte list \<Rightarrow> pointer" where
  "bytes_at bs = (\<lambda>i. if i < length bs then bs ! i else 0)"

text \<open>
  The calls one process makes on a channel, and what each call did. A call that throws
  leaves the caller running on the state the call left behind; after a call that never
  returns, or one with undefined behaviour, there is no run.
\<close>

datatype op = Send pointer size_t | Receive bool

datatype event =
    Sent size_t
  | Send_failed error
  | Received "byte list"
  | Receive_failed error

fun run :: "op list \<Rightarrow> channel \<Rightarrow> (event list \<times> channel) option" where
  "run [] ch = Some ([], ch)"
| "run (Send bytes len # ops) ch =
     (case send_bytes bytes len ch of
        Returns u ch' \<Rightarrow> map_option (\<lambda>(evs, c). (Sent len # evs, c)) (run ops ch')
      | Throws e ch' \<Rightarrow> map_option (\<lambda>(evs, c). (Send_failed e # evs, c)) (run ops ch')
      | Blocks \<Rightarrow> None
      | Undefined_behaviour \<Rightarrow> None)"
| "run (Receive block # ops) ch =
     (case receive_bytes block ch of
        Returns bs ch' \<Rightarrow> map_option (\<lambda>(evs, c). (Received bs # evs, c)) (run ops ch')
      | Throws e ch' \<Rightarrow> map_option (\<lambda>(evs, c). (Receive_failed e # evs, c)) (run ops ch')
      | Blocks \<Rightarrow> None
      | Undefined_behaviour \<Rightarrow> None)"





text \<open>The bytes a frame with \<open>len\<close> payload bytes takes in the data region.\<close>

definition frame_size :: "size_t \<Rightarrow> nat" where
  "frame_size len = 8 + unat len"

section \<open>The lock around a call\<close>

lemma channel_init_unfold:
  "channel_init vmax sz =
     \<lparr>lock = \<lparr>sem_count = 1, value_max = vmax\<rparr>,
      n_unread = \<lparr>sem_count = 0, value_max = vmax\<rparr>,
      capacity = sz,
      shared_mem = replicate (unat sz) 0,
      start = 0, end_off = 0, full = False\<rparr>"
  by (simp add: channel_init_def semaphore_init_def get_shared_mem_def)

lemma available_space_lock [simp]:
  "available_space (ch\<lparr>lock := l\<rparr>) = available_space ch"
  by (simp add: available_space_def Let_def)

lemma acquire_lock_unlocked:
  "unlocked ch \<Longrightarrow>
     acquire_lock ch = Some (ch\<lparr>lock := (lock ch)\<lparr>sem_count := sem_count (lock ch) - 1\<rparr>\<rparr>)"
  by (simp add: unlocked_def acquire_lock_def wait_def)

lemma release_lock_held:
  assumes "unlocked ch" and "lock c = (lock ch)\<lparr>sem_count := sem_count (lock ch) - 1\<rparr>"
  shows "release_lock c = Inr (c\<lparr>lock := lock ch\<rparr>)"
  using assms by (auto simp: unlocked_def release_lock_def post_def)

text \<open>
  With the lock free, a call of \<open>send_bytes\<close> with \<open>len > 0\<close> takes the lock and gives
  it back on every path that ends, so the lock drops out of what the call does.
\<close>

lemma send_bytes_unlocked:
  assumes "unlocked ch" and "len \<noteq> 0"
  shows "send_bytes bytes len ch =
     (if 8 + len > available_space ch then Throws Overflow_error ch
      else if capacity ch = 0 then Undefined_behaviour
      else
        (case send_len (capacity ch) (end_off ch) len (shared_mem ch) of
           None \<Rightarrow> Undefined_behaviour
         | Some mem1 \<Rightarrow>
            (case send_payload (capacity ch) ((end_off ch + 8) mod capacity ch) bytes len
                    (8 + len) mem1 of
               None \<Rightarrow> Undefined_behaviour
             | Some mem2 \<Rightarrow>
                (case post (n_unread ch) of
                   Inl e \<Rightarrow>
                     Throws e
                       (ch\<lparr>shared_mem := mem2,
                          full := (8 + len = available_space ch \<or> full ch),
                          end_off := ((end_off ch + 8) mod capacity ch + len) mod capacity ch\<rparr>)
                 | Inr s \<Rightarrow>
                     Returns ()
                       (ch\<lparr>shared_mem := mem2,
                          full := (8 + len = available_space ch \<or> full ch),
                          end_off := ((end_off ch + 8) mod capacity ch + len) mod capacity ch,
                          n_unread := s\<rparr>)))))"
proof -
  let ?ch1 = "ch\<lparr>lock := (lock ch)\<lparr>sem_count := sem_count (lock ch) - 1\<rparr>\<rparr>"
  have a: "acquire_lock ch = Some ?ch1" by (rule acquire_lock_unlocked [OF assms(1)])
  have r: "\<And>c. lock c = lock ?ch1 \<Longrightarrow> release_lock c = Inr (c\<lparr>lock := lock ch\<rparr>)"
    using release_lock_held [OF assms(1)] by simp
  show ?thesis
    using assms(2)
    by (simp add: send_bytes_def a r Let_def release_and_throw_def release_and_return_def
        split: option.splits sum.splits)
qed

lemma receive_locked_unlocked:
  assumes "unlocked ch"
  shows "receive_locked ch =
     (if capacity ch = 0 then Undefined_behaviour
      else
        (case receive_len (capacity ch) (start ch) (shared_mem ch) of
           None \<Rightarrow> Undefined_behaviour
         | Some len_bytes \<Rightarrow>
            (case receive_payload (capacity ch) ((start ch + 8) mod capacity ch)
                    (size_t_of_bytes len_bytes) (shared_mem ch) of
               None \<Rightarrow> Undefined_behaviour
             | Some bytes \<Rightarrow>
                 Returns bytes
                   (ch\<lparr>full := False,
                       start := ((start ch + 8) mod capacity ch + size_t_of_bytes len_bytes)
                                  mod capacity ch\<rparr>))))"
proof -
  let ?ch1 = "ch\<lparr>lock := (lock ch)\<lparr>sem_count := sem_count (lock ch) - 1\<rparr>\<rparr>"
  have a: "acquire_lock ch = Some ?ch1" by (rule acquire_lock_unlocked [OF assms(1)])
  have r: "\<And>c. lock c = lock ?ch1 \<Longrightarrow> release_lock c = Inr (c\<lparr>lock := lock ch\<rparr>)"
    using release_lock_held [OF assms(1)] by simp
  show ?thesis
    by (simp add: receive_locked_def a r Let_def release_and_return_def
        split: option.splits sum.splits)
qed

section \<open>Available space\<close>

text \<open>
  C6: for \<open>head\<close> and \<open>tail\<close> below the capacity, the space \<open>send_bytes\<close> computes is,
  as a number, capacity - (tail - head) when head < tail, head - tail when head > tail,
  the capacity when head = tail and the channel is not full, and 0 when head = tail and
  it is full. None of the unsigned subtractions wraps.
\<close>

theorem available_space_value:
  assumes "start ch < capacity ch" and "end_off ch < capacity ch"
  shows "unat (available_space ch) =
     (if unat (start ch) < unat (end_off ch)
        then unat (capacity ch) - (unat (end_off ch) - unat (start ch))
      else if unat (start ch) > unat (end_off ch)
        then unat (start ch) - unat (end_off ch)
      else if \<not> full ch then unat (capacity ch)
      else 0)"
  using assms
  by (auto simp: available_space_def Let_def word_less_nat_alt unat_sub word_le_nat_alt)

theorem available_space_value_witness:
  "unat (available_space
      \<lparr>lock = \<lparr>sem_count = 1, value_max = 100\<rparr>,
       n_unread = \<lparr>sem_count = 2, value_max = 100\<rparr>,
       capacity = 32, shared_mem = replicate 32 0,
       start = 3, end_off = 10, full = False\<rparr>) = 25
   \<and> unat (available_space
      \<lparr>lock = \<lparr>sem_count = 1, value_max = 100\<rparr>,
       n_unread = \<lparr>sem_count = 2, value_max = 100\<rparr>,
       capacity = 32, shared_mem = replicate 32 0,
       start = 20, end_off = 10, full = False\<rparr>) = 10
   \<and> unat (available_space
      \<lparr>lock = \<lparr>sem_count = 1, value_max = 100\<rparr>,
       n_unread = \<lparr>sem_count = 0, value_max = 100\<rparr>,
       capacity = 32, shared_mem = replicate 32 0,
       start = 10, end_off = 10, full = False\<rparr>) = 32
   \<and> unat (available_space
      \<lparr>lock = \<lparr>sem_count = 1, value_max = 100\<rparr>,
       n_unread = \<lparr>sem_count = 2, value_max = 100\<rparr>,
       capacity = 32, shared_mem = replicate 32 0,
       start = 10, end_off = 10, full = True\<rparr>) = 0"
  using
    available_space_value [of "\<lparr>lock = \<lparr>sem_count = 1, value_max = 100\<rparr>,
       n_unread = \<lparr>sem_count = 2, value_max = 100\<rparr>,
       capacity = 32, shared_mem = replicate 32 0,
       start = 3, end_off = 10, full = False\<rparr>"]
    available_space_value [of "\<lparr>lock = \<lparr>sem_count = 1, value_max = 100\<rparr>,
       n_unread = \<lparr>sem_count = 2, value_max = 100\<rparr>,
       capacity = 32, shared_mem = replicate 32 0,
       start = 20, end_off = 10, full = False\<rparr>"]
    available_space_value [of "\<lparr>lock = \<lparr>sem_count = 1, value_max = 100\<rparr>,
       n_unread = \<lparr>sem_count = 0, value_max = 100\<rparr>,
       capacity = 32, shared_mem = replicate 32 0,
       start = 10, end_off = 10, full = False\<rparr>"]
    available_space_value [of "\<lparr>lock = \<lparr>sem_count = 1, value_max = 100\<rparr>,
       n_unread = \<lparr>sem_count = 2, value_max = 100\<rparr>,
       capacity = 32, shared_mem = replicate 32 0,
       start = 10, end_off = 10, full = True\<rparr>"]
  by simp

section \<open>Calls that fail\<close>

text \<open>
  A call with \<open>len = 0\<close> is a no-op: it returns before the lock is taken and before
  \<open>n\<close> and the available space are computed.
\<close>

lemma send_bytes_zero_len: "send_bytes bytes 0 ch = Returns () ch"
  by (simp add: send_bytes_def)



text \<open>
  C5: in every channel state in which \<open>n_unread\<close> counts zero frames, a non-blocking
  call of \<open>receive_bytes\<close> throws the out-of-range error and leaves the whole channel
  state as it was.
\<close>

theorem receive_bytes_empty:
  "sem_count (n_unread ch) = 0 \<Longrightarrow> receive_bytes False ch = Throws Out_of_range ch"
  by (simp add: receive_bytes_def trywait_def)

theorem receive_bytes_empty_witness:
  "sem_count (n_unread (channel_init 100 32)) = 0
   \<and> receive_bytes False (channel_init 100 32) = Throws Out_of_range (channel_init 100 32)"
  using receive_bytes_empty [of "channel_init 100 32"] by (simp add: channel_init_unfold)

section \<open>Moving a buffer\<close>

lemma buffer_move_same:
  "fst (buffer_move b) = b \<and> snd (buffer_move b) = b"
  by (simp add: buffer_move_def)

text \<open>
  Whatever the buffer, destroying the moved-to and the moved-from object releases its
  address twice.
\<close>

lemma buffer_move_destroy_both:
  "times_released (buf b)
     (buffer_destroy (snd (buffer_move b)) (buffer_destroy (fst (buffer_move b)) [])) = 2"
  by (cases "buf_type b") (simp_all add: buffer_move_def buffer_destroy_def times_released_def)

text \<open>
  C4: the claim is that after a move, destroying the moved-to and the moved-from buffer
  releases the memory once. The defaulted move constructor leaves the pointer in the
  moved-from buffer: for a heap block at address 4096, destroying both calls \<open>free\<close>
  on that address twice.
\<close>

theorem buffer_move_released_twice:
  "times_released 4096
     (buffer_destroy (snd (buffer_move \<lparr>buf = 4096, buf_len = 8, buf_type = MALLOC\<rparr>))
       (buffer_destroy (fst (buffer_move \<lparr>buf = 4096, buf_len = 8, buf_type = MALLOC\<rparr>)) []))
   = 2"
  by (simp add: buffer_move_def buffer_destroy_def times_released_def)

section \<open>The size of the payload copy\<close>

text \<open>
  C1: the claim is that the payload copy takes exactly \<open>len\<close> bytes from the source. On
  a new channel of 32 bytes, a call with \<open>len = 2\<close> on the bytes 65, 66, which lie in
  the caller's memory before the bytes 1 to 8, takes the branch that does not wrap and
  copies \<open>n = 10\<close> bytes: the region holds the prefix 2, the payload 65, 66, and behind
  it the eight bytes 1 to 8 that are not part of the payload.
\<close>

theorem send_bytes_copies_n:
  "send_bytes (bytes_at [65, 66, 1, 2, 3, 4, 5, 6, 7, 8]) 2 (channel_init 100 32) =
     Returns ()
       \<lparr>lock = \<lparr>sem_count = 1, value_max = 100\<rparr>,
        n_unread = \<lparr>sem_count = 1, value_max = 100\<rparr>,
        capacity = 32,
        shared_mem = [2, 0, 0, 0, 0, 0, 0, 0, 65, 66, 1, 2, 3, 4, 5, 6, 7, 8,
                      0, 0, 0, 0, 0, 0, 0, 0, 0, 0, 0, 0, 0, 0],
        start = 0, end_off = 10, full = False\<rparr>"
  by code_simp

text \<open>
  C2: the claim is that every receive returns the bytes of the oldest frame not yet
  received. On a channel of 32 bytes: a frame of 8 payload bytes is sent and received;
  a second frame of 8 payload bytes is sent, which lies at the offsets 16 to 31; a third
  frame of 7 payload bytes is sent, which lies at the offsets 0 to 14, and 16 + 15 bytes
  are in flight. The payload copy of the third send has the size \<open>n = 15\<close> and writes
  the offsets 8 to 22, over the length prefix of the second frame. The receive that
  follows returns three bytes, not the eight bytes that were sent.
\<close>

theorem receive_after_overlong_copy:
  "map_option fst
     (run [Send (bytes_at [1, 2, 3, 4, 5, 6, 7, 8]) 8,
           Receive False,
           Send (bytes_at [11, 12, 13, 14, 15, 16, 17, 18]) 8,
           Send (bytes_at [21, 22, 23, 24, 25, 26, 27, 0, 3]) 7,
           Receive False]
        (channel_init 100 32))
   = Some [Sent 8, Received [1, 2, 3, 4, 5, 6, 7, 8], Sent 8, Sent 7, Received [11, 12, 13]]"
  by code_simp

text \<open>
  C10: the claim is that in a branch that wraps, the first piece \<open>capacity - offset\<close> is
  never longer than the whole copy. After the same calls, with zero bytes behind the
  third payload in the caller's memory, the length prefix at \<open>head = 16\<close> reads 0. The
  payload copy of the next receive has the size 0 and starts at the offset 24; the test
  \<open>new_start > head\<close> fails, the first piece has the length 32 - 24 = 8, which is more
  than the size 0 of the copy and of the block it is copied to, and the length of the
  second piece, 0 - 8, wraps around.
\<close>

theorem receive_first_half_too_long:
  "run [Send (bytes_at [1, 2, 3, 4, 5, 6, 7, 8]) 8,
        Receive False,
        Send (bytes_at [11, 12, 13, 14, 15, 16, 17, 18]) 8,
        Send (bytes_at [21, 22, 23, 24, 25, 26, 27]) 7]
     (channel_init 100 32)
   = Some ([Sent 8, Received [1, 2, 3, 4, 5, 6, 7, 8], Sent 8, Sent 7],
       \<lparr>lock = \<lparr>sem_count = 1, value_max = 100\<rparr>,
        n_unread = \<lparr>sem_count = 2, value_max = 100\<rparr>,
        capacity = 32,
        shared_mem = [7, 0, 0, 0, 0, 0, 0, 0, 21, 22, 23, 24, 25, 26, 27, 0,
                      0, 0, 0, 0, 0, 0, 0, 0, 11, 12, 13, 14, 15, 16, 17, 18],
        start = 16, end_off = 15, full = False\<rparr>)
   \<and> receive_len 32 16
         [7, 0, 0, 0, 0, 0, 0, 0, 21, 22, 23, 24, 25, 26, 27, 0,
          0, 0, 0, 0, 0, 0, 0, 0, 11, 12, 13, 14, 15, 16, 17, 18]
       = Some [0, 0, 0, 0, 0, 0, 0, 0]
   \<and> size_t_of_bytes [0, 0, 0, 0, 0, 0, 0, 0] = 0
   \<and> \<not> (((24 :: size_t) + 0) mod 32 > 24)
   \<and> (32 :: size_t) - 24 > 0
   \<and> (0 :: size_t) - (32 - 24) = 0xFFFFFFFFFFFFFFF8
   \<and> receive_payload 32 24 0
         [7, 0, 0, 0, 0, 0, 0, 0, 21, 22, 23, 24, 25, 26, 27, 0,
          0, 0, 0, 0, 0, 0, 0, 0, 11, 12, 13, 14, 15, 16, 17, 18]
       = None
   \<and> receive_bytes False
         \<lparr>lock = \<lparr>sem_count = 1, value_max = 100\<rparr>,
          n_unread = \<lparr>sem_count = 2, value_max = 100\<rparr>,
          capacity = 32,
          shared_mem = [7, 0, 0, 0, 0, 0, 0, 0, 21, 22, 23, 24, 25, 26, 27, 0,
                        0, 0, 0, 0, 0, 0, 0, 0, 11, 12, 13, 14, 15, 16, 17, 18],
          start = 16, end_off = 15, full = False\<rparr>
       = Undefined_behaviour"
  by code_simp

section \<open>The count of the readiness semaphore\<close>








section \<open>Bytes and copies\<close>

lemma length_size_t_bytes [simp]: "length (size_t_bytes w) = 8"
  by (simp add: size_t_bytes_def)

lemma size_t_bytes_unfold:
  "size_t_bytes w = [ucast w, ucast (drop_bit 8 w), ucast (drop_bit 16 w), ucast (drop_bit 24 w),
     ucast (drop_bit 32 w), ucast (drop_bit 40 w), ucast (drop_bit 48 w), ucast (drop_bit 56 w)]"
proof -
  have "[0..<8] = [0, 1, 2, 3, 4, 5, 6, 7 :: nat]" by (simp add: upt_rec)
  then show ?thesis by (simp add: size_t_bytes_def)
qed

lemma low_byte_split:
  fixes v :: size_t
  shows "ucast (ucast v :: byte) OR push_bit 8 (drop_bit 8 v) = v"
proof (rule bit_word_eqI)
  fix n
  assume "n < LENGTH(64)"
  then show "bit (ucast (ucast v :: byte) OR push_bit 8 (drop_bit 8 v)) n = bit v n"
    by (cases "n < 8") (auto simp: bit_simps)
qed

text \<open>The eight bytes written for a length read back as that length.\<close>

lemma size_t_roundtrip: "size_t_of_bytes (size_t_bytes w) = w"
proof -
  have z: "drop_bit 8 (drop_bit 56 w) = 0"
    by (simp add: drop_bit_drop_bit)
  have s: "\<And>k. drop_bit 8 (drop_bit k w) = drop_bit (8 + k) w"
    by (simp add: drop_bit_drop_bit add.commute)
  have b7: "ucast (ucast (drop_bit 56 w) :: byte) OR push_bit 8 0 = drop_bit 56 w"
    using low_byte_split [of "drop_bit 56 w"] z by simp
  have b6: "ucast (ucast (drop_bit 48 w) :: byte) OR push_bit 8 (drop_bit 56 w) = drop_bit 48 w"
    using low_byte_split [of "drop_bit 48 w"] s [of 48] by simp
  have b5: "ucast (ucast (drop_bit 40 w) :: byte) OR push_bit 8 (drop_bit 48 w) = drop_bit 40 w"
    using low_byte_split [of "drop_bit 40 w"] s [of 40] by simp
  have b4: "ucast (ucast (drop_bit 32 w) :: byte) OR push_bit 8 (drop_bit 40 w) = drop_bit 32 w"
    using low_byte_split [of "drop_bit 32 w"] s [of 32] by simp
  have b3: "ucast (ucast (drop_bit 24 w) :: byte) OR push_bit 8 (drop_bit 32 w) = drop_bit 24 w"
    using low_byte_split [of "drop_bit 24 w"] s [of 24] by simp
  have b2: "ucast (ucast (drop_bit 16 w) :: byte) OR push_bit 8 (drop_bit 24 w) = drop_bit 16 w"
    using low_byte_split [of "drop_bit 16 w"] s [of 16] by simp
  have b1: "ucast (ucast (drop_bit 8 w) :: byte) OR push_bit 8 (drop_bit 16 w) = drop_bit 8 w"
    using low_byte_split [of "drop_bit 8 w"] s [of 8] by simp
  have b0: "ucast (ucast w :: byte) OR push_bit 8 (drop_bit 8 w) = w"
    by (rule low_byte_split)
  show ?thesis
    unfolding size_t_bytes_unfold size_t_of_bytes_def foldr.simps o_apply id_apply
    by (simp only: b7 b6 b5 b4 b3 b2 b1 b0)
qed

lemma length_fetch [simp]: "length (fetch p off k) = k"
  by (simp add: fetch_def)

lemma take_fetch: "j \<le> k \<Longrightarrow> take j (fetch p off k) = fetch p off j"
  by (simp add: fetch_def take_map)

lemma fetch_0 [simp]: "fetch p off 0 = []"
  by (simp add: fetch_def)

lemma malloc_length [simp]: "length (malloc k) = k"
  by (simp add: malloc_def)

lemma memcpy_fits:
  "off + k \<le> length dst \<Longrightarrow> k \<le> length src \<Longrightarrow>
     memcpy dst off src k = Some (take off dst @ take k src @ drop (off + k) dst)"
  by (simp add: memcpy_def)

lemma memcpy_nothing [simp]: "memcpy dst 0 src 0 = Some dst"
  by (simp add: memcpy_def)

lemma take_drop_prefix:
  assumes "take m xs = take m ys" and "a + n \<le> m"
  shows "take n (drop a xs) = take n (drop a ys)"
proof -
  have "\<And>zs :: 'a list. take n (drop a (take m zs)) = take n (drop a zs)"
    using assms(2) by (simp add: drop_take min_def)
  then show ?thesis using assms(1) by metis
qed

text \<open>Sums of offsets and lengths that stay within a capacity do not wrap.\<close>

lemma unat_plus_8:
  fixes x :: size_t
  assumes "unat x + 8 \<le> unat (c :: size_t)"
  shows "unat (x + 8) = unat x + 8"
proof -
  have "unat c < 2 ^ 64" using unsigned_less [of c , where 'a = nat] by simp
  with assms have "unat x + unat (8 :: size_t) < 2 ^ LENGTH(64)" by simp
  then show ?thesis by (simp add: unat_add_lem [THEN iffD1])
qed

lemma unat_plus_le:
  fixes x y c :: size_t
  assumes "unat x + unat y \<le> unat c"
  shows "unat (x + y) = unat x + unat y"
proof -
  have "unat c < 2 ^ 64" using unsigned_less [of c , where 'a = nat] by simp
  with assms have "unat x + unat y < 2 ^ LENGTH(64)" by simp
  then show ?thesis by (simp add: unat_add_lem [THEN iffD1])
qed

subsection \<open>The copies of a send\<close>

lemma send_len_nowrap:
  assumes "unat tail + 8 < unat cap" and "length mem = unat cap"
  shows "send_len cap tail len mem =
           Some (take (unat tail) mem @ size_t_bytes len @ drop (unat tail + 8) mem)"
proof -
  have u: "unat (tail + 8) = unat tail + 8" using assms(1) by (simp add: unat_plus_8 [of tail cap])
  have m: "unat ((tail + 8) mod cap) = unat tail + 8" using assms(1) by (simp add: unat_mod u)
  have g: "(tail + 8) mod cap > tail" by (simp add: word_less_nat_alt m)
  show ?thesis using assms g
    by (simp add: send_len_def Let_def memcpy_fits)
qed

text \<open>
  The payload copy that does not wrap writes \<open>8 + len\<close> bytes; it stays in the region
  when 8 bytes are free behind the payload.
\<close>

lemma send_payload_nowrap:
  assumes "unat tail + unat len + 8 \<le> unat cap" and "len \<noteq> 0" and "length mem = unat cap"
  shows "send_payload cap tail bytes len (8 + len) mem =
           Some (take (unat tail) mem @ fetch bytes 0 (8 + unat len)
                 @ drop (unat tail + (8 + unat len)) mem)"
proof -
  have l: "0 < unat len" using assms(2) by (simp add: unat_gt_0)
  have u: "unat (tail + len) = unat tail + unat len" using assms(1)
    by (simp add: unat_plus_le [of tail len cap])
  have m: "unat ((tail + len) mod cap) = unat tail + unat len"
    using assms(1) by (simp add: unat_mod u)
  have g: "(tail + len) mod cap > tail" using l by (simp add: word_less_nat_alt m)
  have n: "unat (8 + len) = 8 + unat len" using assms(1) l
    using unat_plus_le [of 8 len cap] by simp
  show ?thesis using assms g
    by (simp add: send_payload_def Let_def memcpy_fits n)
qed

text \<open>
  A payload that ends at the capacity is copied by the branch that wraps: the first
  piece has \<open>len\<close> bytes, the second none.
\<close>

lemma send_payload_exact:
  assumes "unat tail + unat len = unat cap" and "len \<noteq> 0" and "length mem = unat cap"
  shows "send_payload cap tail bytes len n mem =
           Some (take (unat tail) mem @ fetch bytes 0 (unat len))"
proof -
  have l: "0 < unat len" using assms(2) by (simp add: unat_gt_0)
  have u: "unat (tail + len) = unat cap" using assms(1)
    by (simp add: unat_plus_le [of tail len cap])
  then have e: "tail + len = cap" by (simp add: word_unat_eq_iff)
  have g: "\<not> (tail + len) mod cap > tail" by (simp add: e)
  have f: "cap - tail = len" using e by auto
  show ?thesis using assms g
    by (simp add: send_payload_def Let_def memcpy_fits f)
qed

subsection \<open>The copies of a receive\<close>

lemma receive_len_nowrap:
  assumes "unat head + 8 < unat cap" and "length mem = unat cap"
  shows "receive_len cap head mem = Some (take 8 (drop (unat head) mem))"
proof -
  have u: "unat (head + 8) = unat head + 8" using assms(1) by (simp add: unat_plus_8 [of head cap])
  have m: "unat ((head + 8) mod cap) = unat head + 8" using assms(1) by (simp add: unat_mod u)
  have g: "(head + 8) mod cap > head" by (simp add: word_less_nat_alt m)
  show ?thesis using assms g
    by (simp add: receive_len_def Let_def memcpy_fits)
qed

lemma receive_payload_nowrap:
  assumes "unat head + unat len < unat cap" and "len \<noteq> 0" and "length mem = unat cap"
  shows "receive_payload cap head len mem = Some (take (unat len) (drop (unat head) mem))"
proof -
  have l: "0 < unat len" using assms(2) by (simp add: unat_gt_0)
  have u: "unat (head + len) = unat head + unat len" using assms(1)
    by (simp add: unat_plus_le [of head len cap])
  have m: "unat ((head + len) mod cap) = unat head + unat len"
    using assms(1) by (simp add: unat_mod u)
  have g: "(head + len) mod cap > head" using l by (simp add: word_less_nat_alt m)
  show ?thesis using assms g
    by (simp add: receive_payload_def Let_def memcpy_fits)
qed

lemma receive_payload_exact:
  assumes "unat head + unat len = unat cap" and "len \<noteq> 0" and "length mem = unat cap"
  shows "receive_payload cap head len mem = Some (take (unat len) (drop (unat head) mem))"
proof -
  have u: "unat (head + len) = unat cap" using assms(1)
    by (simp add: unat_plus_le [of head len cap])
  then have e: "head + len = cap" by (simp add: word_unat_eq_iff)
  have g: "\<not> (head + len) mod cap > head" by (simp add: e)
  have f: "cap - head = len" using e by auto
  show ?thesis using assms g
    by (simp add: receive_payload_def Let_def memcpy_fits f memcpy_def)
qed

subsection \<open>Copies in two pieces\<close>

text \<open>
  When the test \<open>new_end > tail\<close> fails for a copy of \<open>k > 0\<close> bytes at an offset below
  the capacity, the first piece \<open>capacity - offset\<close> is at most \<open>k\<close> and ends at the
  capacity.
\<close>

lemma wrap_first_half:
  fixes off cap k :: size_t
  assumes "off < cap" and "k \<noteq> 0" and "\<not> (off + k) mod cap > off"
  shows "unat (cap - off) \<le> unat k \<and> unat off + unat (cap - off) = unat cap"
proof -
  have oc: "unat off < unat cap" using assms(1) by (simp add: word_less_nat_alt)
  have k: "0 < unat k" using assms(2) by (simp add: unat_gt_0)
  have s: "unat (cap - off) = unat cap - unat off"
    using assms(1) by (simp add: unat_sub word_le_nat_alt word_less_nat_alt)
  have "\<not> unat off + unat k < unat cap"
  proof
    assume a: "unat off + unat k < unat cap"
    then have "unat (off + k) = unat off + unat k"
      by (simp add: unat_plus_le [of off k cap])
    with a have "unat ((off + k) mod cap) = unat off + unat k" by (simp add: unat_mod)
    with k have "(off + k) mod cap > off" by (simp add: word_less_nat_alt)
    with assms(3) show False by simp
  qed
  with s oc show ?thesis by simp
qed

text \<open>
  When the test \<open>new_end > tail\<close> holds for a copy no longer than the capacity, the copy
  ends within the region.
\<close>

lemma nowrap_fits:
  fixes off cap k :: size_t
  assumes "off < cap" and "k \<le> cap" and "(off + k) mod cap > off"
  shows "unat off + unat k \<le> unat cap"
proof (rule ccontr)
  assume a: "\<not> unat off + unat k \<le> unat cap"
  have oc: "unat off < unat cap" using assms(1) by (simp add: word_less_nat_alt)
  have kc: "unat k \<le> unat cap" using assms(2) by (simp add: word_le_nat_alt)
  have u: "unat (off + k) = (unat off + unat k) mod 2 ^ 64"
    by (simp add: unat_word_ariths)
  have "unat ((off + k) mod cap) \<le> unat off"
  proof (cases "unat off + unat k < 2 ^ 64")
    case True
    then have "unat (off + k) = unat off + unat k" by (simp add: u)
    moreover have "(unat off + unat k) mod unat cap = unat off + unat k - unat cap"
      using a oc kc by (simp add: mod_if)
    ultimately show ?thesis using kc by (simp add: unat_mod)
  next
    case False
    have "unat k < 2 ^ 64" using unsigned_less [of k, where 'a = nat] by simp
    moreover have "unat off < 2 ^ 64" using unsigned_less [of off, where 'a = nat] by simp
    ultimately have "unat (off + k) = unat off + unat k - 2 ^ 64"
      using False by (simp add: u mod_if)
    with False \<open>unat k < 2 ^ 64\<close> have "unat (off + k) \<le> unat off" by simp
    moreover have "unat ((off + k) mod cap) \<le> unat (off + k)"
      by (simp add: unat_mod)
    ultimately show ?thesis by simp
  qed
  with assms(3) show False by (simp add: word_less_nat_alt)
qed

text \<open>
  With \<open>head\<close> and \<open>tail\<close> below a capacity of more than 8 bytes, both copies of the
  length prefix stay within their objects on either branch; so do the payload copy of a
  send on the branch that wraps, and the payload copy of a receive when the length read
  is positive and at most the capacity.
\<close>

lemma send_len_in_bounds:
  assumes "tail < cap" and "8 < cap" and "length mem = unat cap"
  shows "\<exists>mem'. send_len cap tail len mem = Some mem' \<and> length mem' = unat cap"
proof (cases "(tail + 8) mod cap > tail")
  case True
  from nowrap_fits [OF assms(1) _ True] assms(2) have "unat tail + 8 \<le> unat cap" by simp
  with True assms show ?thesis
    by (simp add: send_len_def Let_def memcpy_def)
next
  case False
  from wrap_first_half [OF assms(1) _ False]
  have f: "unat (cap - tail) \<le> 8" and e: "unat tail + unat (cap - tail) = unat cap" by simp_all
  have s: "unat (8 - (cap - tail)) = 8 - unat (cap - tail)"
    using f by (simp add: unat_sub word_le_nat_alt)
  have c8: "8 < unat cap" using assms(2) by (simp add: word_less_nat_alt)
  show ?thesis using False assms(3) f e s c8
    by (simp add: send_len_def Let_def memcpy_def)
qed

lemma send_payload_wrap_in_bounds:
  assumes "tail < cap" and "len \<noteq> 0" and "len \<le> cap" and "length mem = unat cap"
    and "\<not> (tail + len) mod cap > tail"
  shows "\<exists>mem'. send_payload cap tail bytes len n mem = Some mem' \<and> length mem' = unat cap"
proof -
  from wrap_first_half [OF assms(1,2,5)]
  have f: "unat (cap - tail) \<le> unat len" and e: "unat tail + unat (cap - tail) = unat cap"
    by simp_all
  have s: "unat (len - (cap - tail)) = unat len - unat (cap - tail)"
    using f by (simp add: unat_sub word_le_nat_alt)
  have lc: "unat len \<le> unat cap" using assms(3) by (simp add: word_le_nat_alt)
  show ?thesis using assms(4,5) f e s lc
    by (simp add: send_payload_def Let_def memcpy_def)
qed

lemma receive_len_in_bounds:
  assumes "head < cap" and "8 < cap" and "length mem = unat cap"
  shows "\<exists>bs. receive_len cap head mem = Some bs \<and> length bs = 8"
proof (cases "(head + 8) mod cap > head")
  case True
  from nowrap_fits [OF assms(1) _ True] assms(2) have "unat head + 8 \<le> unat cap" by simp
  with True assms show ?thesis
    by (simp add: receive_len_def Let_def memcpy_def)
next
  case False
  from wrap_first_half [OF assms(1) _ False]
  have f: "unat (cap - head) \<le> 8" and e: "unat head + unat (cap - head) = unat cap" by simp_all
  have s: "unat (8 - (cap - head)) = 8 - unat (cap - head)"
    using f by (simp add: unat_sub word_le_nat_alt)
  have c8: "8 < unat cap" using assms(2) by (simp add: word_less_nat_alt)
  show ?thesis using False assms(3) f e s c8
    by (auto simp: receive_len_def Let_def memcpy_def)
qed

lemma receive_payload_in_bounds:
  assumes "head < cap" and "len \<noteq> 0" and "len \<le> cap" and "length mem = unat cap"
  shows "\<exists>bs. receive_payload cap head len mem = Some bs \<and> length bs = unat len"
proof (cases "(head + len) mod cap > head")
  case True
  from nowrap_fits [OF assms(1,3) True] have "unat head + unat len \<le> unat cap" .
  with True assms show ?thesis
    by (simp add: receive_payload_def Let_def memcpy_def)
next
  case False
  from wrap_first_half [OF assms(1,2) False]
  have f: "unat (cap - head) \<le> unat len" and e: "unat head + unat (cap - head) = unat cap"
    by simp_all
  have s: "unat (len - (cap - head)) = unat len - unat (cap - head)"
    using f by (simp add: unat_sub word_le_nat_alt)
  have lc: "unat len \<le> unat cap" using assms(3) by (simp add: word_le_nat_alt)
  show ?thesis using False assms(4) f e s lc
    by (auto simp: receive_payload_def Let_def memcpy_def)
qed

section \<open>A failing post\<close>

lemma memcpy_Some:
  assumes "memcpy dst off src k = Some d"
  shows "length d = length dst"
    and "\<And>j. j < k \<Longrightarrow> d ! (off + j) = src ! j"
    and "\<And>p. p < off \<or> off + k \<le> p \<Longrightarrow> d ! p = dst ! p"
proof -
  from assms have b: "off + k \<le> length dst" "k \<le> length src"
    and d: "d = take off dst @ take k src @ drop (off + k) dst"
    by (auto simp: memcpy_def split: if_splits)
  show "length d = length dst" using b by (simp add: d)
  show "\<And>j. j < k \<Longrightarrow> d ! (off + j) = src ! j"
    using b by (simp add: d nth_append)
  show "\<And>p. p < off \<or> off + k \<le> p \<Longrightarrow> d ! p = dst ! p"
    using b by (auto simp: d nth_append)
qed

lemma mod_once: "C \<le> x \<Longrightarrow> x < 2 * C \<Longrightarrow> x mod C = x - (C :: nat)"
  by (simp add: le_mod_geq)

lemma nth_fetch: "j < k \<Longrightarrow> fetch p off k ! j = p (off + j)"
  by (simp add: fetch_def)


text \<open>
  The length prefix lies at \<open>tail\<close>, around the end of the region, after the prefix copy
  of a send.
\<close>

lemma send_len_content:
  assumes t: "tail < cap" and c8: "8 < cap" and lm: "length mem = unat cap"
    and s: "send_len cap tail len mem = Some mem1" and i: "i < 8"
  shows "mem1 ! ((unat tail + i) mod unat cap) = size_t_bytes len ! i"
proof (cases "(tail + 8) mod cap > tail")
  case True
  from nowrap_fits [OF t _ True] c8 have f: "unat tail + 8 \<le> unat cap" by simp
  from s True have m: "memcpy mem (unat tail) (size_t_bytes len) 8 = Some mem1"
    by (simp add: send_len_def Let_def)
  from f i have "(unat tail + i) mod unat cap = unat tail + i" by simp
  with memcpy_Some(2) [OF m i] show ?thesis by simp
next
  case False
  have c: "8 < unat cap" using c8 by (simp add: word_less_nat_alt)
  from wrap_first_half [OF t _ False]
  have f: "unat (cap - tail) \<le> 8" and e: "unat tail + unat (cap - tail) = unat cap" by simp_all
  have s2: "unat (8 - (cap - tail)) = 8 - unat (cap - tail)"
    using f by (simp add: unat_sub word_le_nat_alt)
  from s False obtain m' where
    m1: "memcpy mem (unat tail) (size_t_bytes len) (unat (cap - tail)) = Some m'"
    and m2: "memcpy m' 0 (drop (unat (cap - tail)) (size_t_bytes len)) (8 - unat (cap - tail))
               = Some mem1"
    by (auto simp: send_len_def Let_def s2 split: option.splits)
  show ?thesis
  proof (cases "i < unat (cap - tail)")
    case True
    then have p: "(unat tail + i) mod unat cap = unat tail + i" using e by simp
    have "8 - unat (cap - tail) \<le> unat tail + i" using e c by simp
    then have "mem1 ! (unat tail + i) = m' ! (unat tail + i)"
      using memcpy_Some(3) [OF m2, of "unat tail + i"] by simp
    also have "\<dots> = size_t_bytes len ! i" using memcpy_Some(2) [OF m1 True] .
    finally show ?thesis by (simp add: p)
  next
    case False
    then have p: "(unat tail + i) mod unat cap = i - unat (cap - tail)"
      using e i c by (auto simp: mod_if)
    have j: "i - unat (cap - tail) < 8 - unat (cap - tail)" using False i by simp
    have "mem1 ! (0 + (i - unat (cap - tail)))
            = drop (unat (cap - tail)) (size_t_bytes len) ! (i - unat (cap - tail))"
      using memcpy_Some(2) [OF m2 j] .
    also have "\<dots> = size_t_bytes len ! i" using False i f by simp
    finally show ?thesis by (simp add: p)
  qed
qed

text \<open>
  After the payload copy of a send, the payload lies at the cursor, around the end of
  the region. The copy that does not wrap changes the \<open>8 + len\<close> bytes from the cursor
  on and nothing else; the copy that wraps changes the bytes from the cursor to the end
  and those below \<open>cursor + len - capacity\<close>.
\<close>

lemma send_payload_content:
  assumes t: "tail < cap" and l0: "len \<noteq> 0" and lc: "8 + unat len \<le> unat cap"
    and lm: "length mem = unat cap"
    and s: "send_payload cap tail bytes len (8 + len) mem = Some mem2"
  shows "length mem2 = unat cap
      \<and> (\<forall>i. i < unat len \<longrightarrow> mem2 ! ((unat tail + i) mod unat cap) = bytes i)
      \<and> (\<forall>p. unat tail + unat len < unat cap \<longrightarrow> p < unat tail \<or> unat tail + unat len + 8 \<le> p
             \<longrightarrow> mem2 ! p = mem ! p)
      \<and> (\<forall>p. unat cap \<le> unat tail + unat len \<longrightarrow> unat tail + unat len - unat cap \<le> p
             \<longrightarrow> p < unat tail \<longrightarrow> mem2 ! p = mem ! p)"
proof -
  let ?T = "unat tail" and ?L = "unat len" and ?C = "unat cap"
  have tc: "?T < ?C" using t by (simp add: word_less_nat_alt)
  have l: "0 < ?L" using l0 by (simp add: unat_gt_0)
  have lcw: "len \<le> cap" using lc by (simp add: word_le_nat_alt)
  have n: "unat (8 + len) = 8 + ?L" using unat_plus_le [of 8 len cap] lc by simp
  show ?thesis
  proof (cases "(tail + len) mod cap > tail")
    case True
    from nowrap_fits [OF t lcw True] have f: "?T + ?L \<le> ?C" .
    have ne: "?T + ?L \<noteq> ?C"
    proof
      assume "?T + ?L = ?C"
      then have "unat (tail + len) = ?C" by (simp add: unat_plus_le [of tail len cap])
      then have "tail + len = cap" by (simp add: word_unat_eq_iff)
      with True show False by simp
    qed
    from s True have m: "memcpy mem ?T (fetch bytes 0 (8 + ?L)) (8 + ?L) = Some mem2"
      by (simp add: send_payload_def Let_def n)
    show ?thesis
    proof (intro conjI allI impI)
      show "length mem2 = ?C" using memcpy_Some(1) [OF m] lm by simp
    next
      fix i assume i: "i < ?L"
      then have "(?T + i) mod ?C = ?T + i" using f by simp
      moreover have "mem2 ! (?T + i) = fetch bytes 0 (8 + ?L) ! i"
        using memcpy_Some(2) [OF m, of i] i by simp
      ultimately show "mem2 ! ((?T + i) mod ?C) = bytes i" using i by (simp add: nth_fetch)
    next
      fix p assume "p < ?T \<or> ?T + ?L + 8 \<le> p"
      then show "mem2 ! p = mem ! p" using memcpy_Some(3) [OF m, of p] by auto
    next
      fix p assume "?C \<le> ?T + ?L"
      with f ne show "mem2 ! p = mem ! p" by simp
    qed
  next
    case False
    from wrap_first_half [OF t l0 False]
    have f: "unat (cap - tail) \<le> ?L" and e: "?T + unat (cap - tail) = ?C" by simp_all
    have s2: "unat (len - (cap - tail)) = ?L - unat (cap - tail)"
      using f by (simp add: unat_sub word_le_nat_alt)
    let ?F = "unat (cap - tail)"
    from s False obtain m' where
      m1: "memcpy mem ?T (fetch bytes 0 ?F) ?F = Some m'"
      and m2: "memcpy m' 0 (fetch bytes ?F (?L - ?F)) (?L - ?F) = Some mem2"
      by (auto simp: send_payload_def Let_def s2 split: option.splits)
    show ?thesis
    proof (intro conjI allI impI)
      show "length mem2 = ?C" using memcpy_Some(1) [OF m2] memcpy_Some(1) [OF m1] lm by simp
    next
      fix i assume i: "i < ?L"
      show "mem2 ! ((?T + i) mod ?C) = bytes i"
      proof (cases "i < ?F")
        case True
        then have p: "(?T + i) mod ?C = ?T + i" using e by simp
        have "?L - ?F \<le> ?T + i" using e lc by simp
        then have "mem2 ! (?T + i) = m' ! (?T + i)"
          using memcpy_Some(3) [OF m2, of "?T + i"] by simp
        also have "\<dots> = fetch bytes 0 ?F ! i" using memcpy_Some(2) [OF m1 True] .
        finally show ?thesis using True by (simp add: p nth_fetch)
      next
        case False
        then have p: "(?T + i) mod ?C = i - ?F" using e i lc by (auto simp: mod_if)
        have j: "i - ?F < ?L - ?F" using False i by simp
        have "mem2 ! (0 + (i - ?F)) = fetch bytes ?F (?L - ?F) ! (i - ?F)"
          using memcpy_Some(2) [OF m2 j] .
        then show ?thesis using False j by (simp add: p nth_fetch)
      qed
    next
      fix p assume "?T + ?L < ?C"
      with f e show "mem2 ! p = mem ! p" by simp
    next
      fix p assume a: "?T + ?L - ?C \<le> p" "p < ?T"
      have "?L - ?F \<le> p" using a e by simp
      then have "mem2 ! p = m' ! p" using memcpy_Some(3) [OF m2, of p] by simp
      also have "\<dots> = mem ! p" using memcpy_Some(3) [OF m1, of p] a by simp
      finally show "mem2 ! p = mem ! p" .
    qed
  qed
qed


text \<open>
  C8: when the post of \<open>n_unread\<close> at the end of \<open>send_bytes\<close> fails, the call throws
  the error of the post, and the state it leaves is the state the same call leaves when
  the post succeeds, except for \<open>n_unread\<close>, which is as before the call. In that state
  \<open>tail\<close> and \<open>full\<close> have their values after the send, the payload lies in the data
  region behind the prefix, and the length prefix lies at the old \<open>tail\<close>, both around
  the end of the region. (The prefix is stated where the prefix ends before the end of
  the region or the frame is at most \<open>capacity - 8\<close> bytes long: otherwise the 8 bytes
  that the payload copy adds fall on the prefix.)
\<close>

theorem send_bytes_post_fails:
  assumes u: "unlocked ch" and l0: "len \<noteq> 0"
    and pf: "\<not> sem_count (n_unread ch) < value_max (n_unread ch)"
    and room: "sem_count s < value_max s"
    and ok: "send_bytes bytes len (ch\<lparr>n_unread := s\<rparr>) = Returns () ch'"
    and t: "end_off ch < capacity ch"
    and lm: "length (shared_mem ch) = unat (capacity ch)"
    and lc: "8 + unat len \<le> unat (capacity ch)"
    and cb: "unat (capacity ch) \<le> 2 ^ 64 - 8"
  shows "send_bytes bytes len ch = Throws Runtime_error (ch'\<lparr>n_unread := n_unread ch\<rparr>)
    \<and> end_off ch' = ((end_off ch + 8) mod capacity ch + len) mod capacity ch
    \<and> full ch' = (8 + len = available_space ch \<or> full ch)
    \<and> start ch' = start ch \<and> lock ch' = lock ch
    \<and> length (shared_mem ch') = unat (capacity ch)
    \<and> (\<forall>i. i < unat len \<longrightarrow>
          shared_mem ch' ! ((unat (end_off ch) + 8 + i) mod unat (capacity ch)) = bytes i)
    \<and> (unat (end_off ch) + 8 < unat (capacity ch) \<or> unat len + 16 \<le> unat (capacity ch) \<longrightarrow>
         (\<forall>i. i < 8 \<longrightarrow>
            shared_mem ch' ! ((unat (end_off ch) + i) mod unat (capacity ch))
              = size_t_bytes len ! i))"
proof -
  let ?T = "unat (end_off ch)" and ?L = "unat len" and ?C = "unat (capacity ch)"
  let ?ne = "(end_off ch + 8) mod capacity ch"
  have lf: "unlocked (ch\<lparr>n_unread := s\<rparr>)" using u by (simp add: unlocked_def)
  have av: "available_space (ch\<lparr>n_unread := s\<rparr>) = available_space ch"
    by (simp add: available_space_def Let_def)
  have l: "0 < ?L" using l0 by (simp add: unat_gt_0)
  have tc: "?T < ?C" using t by (simp add: word_less_nat_alt)
  have c8: "8 < capacity ch" using lc l by (simp add: word_less_nat_alt)
  from ok obtain mem1 mem2 where
    s1: "send_len (capacity ch) (end_off ch) len (shared_mem ch) = Some mem1"
    and s2: "send_payload (capacity ch) ?ne bytes len (8 + len) mem1 = Some mem2"
    and m: "shared_mem ch' = mem2"
    unfolding send_bytes_unlocked [OF lf l0]
    by (auto simp: av post_def split: if_splits option.splits)
  have first: "send_bytes bytes len ch = Throws Runtime_error (ch'\<lparr>n_unread := n_unread ch\<rparr>)
    \<and> end_off ch' = (?ne + len) mod capacity ch
    \<and> full ch' = (8 + len = available_space ch \<or> full ch)
    \<and> start ch' = start ch \<and> lock ch' = lock ch"
    using ok unfolding send_bytes_unlocked [OF lf l0] send_bytes_unlocked [OF u l0]
    using pf room
    by (auto simp: av post_def split: if_splits option.splits)
  have lm1: "length mem1 = ?C"
    using send_len_in_bounds [OF t c8 lm, of len] s1 by simp
  have u8: "unat (end_off ch + 8) = ?T + 8"
  proof -
    have "?T + unat (8 :: size_t) < 2 ^ LENGTH(64)" using tc cb by simp
    then show ?thesis by (simp add: unat_add_lem [THEN iffD1])
  qed
  have ne: "unat ?ne = (?T + 8) mod ?C" by (simp add: unat_mod u8)
  have net: "?ne < capacity ch" using c8 by (simp add: word_less_nat_alt ne)
  note pc = send_payload_content [OF net l0 lc lm1 s2]
  have pay: "\<forall>i. i < ?L \<longrightarrow> mem2 ! ((?T + 8 + i) mod ?C) = bytes i"
  proof (intro allI impI)
    fix i assume "i < ?L"
    with pc have "mem2 ! ((unat ?ne + i) mod ?C) = bytes i" by simp
    moreover have "(unat ?ne + i) mod ?C = (?T + 8 + i) mod ?C"
      by (simp add: ne mod_add_left_eq)
    ultimately show "mem2 ! ((?T + 8 + i) mod ?C) = bytes i" by simp
  qed
  have pre: "\<forall>i. i < 8 \<longrightarrow> mem2 ! ((?T + i) mod ?C) = size_t_bytes len ! i"
    if g: "?T + 8 < ?C \<or> ?L + 16 \<le> ?C"
  proof (intro allI impI)
    fix i :: nat assume i: "i < 8"
    have keep: "mem2 ! ((?T + i) mod ?C) = mem1 ! ((?T + i) mod ?C)"
    proof (cases "?T + 8 < ?C")
      case True
      then have n8: "unat ?ne = ?T + 8" by (simp add: ne)
      have p: "(?T + i) mod ?C = ?T + i" using True i by simp
      show ?thesis
      proof (cases "unat ?ne + ?L < ?C")
        case True
        with pc n8 i show ?thesis by (simp add: p)
      next
        case False
        then have "?C \<le> unat ?ne + ?L" by simp
        moreover have "unat ?ne + ?L - ?C \<le> ?T + i" using n8 lc by simp
        moreover have "?T + i < unat ?ne" using n8 i by simp
        ultimately show ?thesis using pc by (simp add: p)
      qed
    next
      case False
      with g have big: "?L + 16 \<le> ?C" by simp
      from False tc c8 have n8: "unat ?ne = ?T + 8 - ?C"
        by (simp add: ne mod_once word_less_nat_alt)
      have nw: "unat ?ne + ?L < ?C" using n8 tc big by simp
      show ?thesis
      proof (cases "?T + i < ?C")
        case True
        then have p: "(?T + i) mod ?C = ?T + i" by simp
        have "unat ?ne + ?L + 8 \<le> ?T + i" using n8 big False by simp
        with pc nw show ?thesis by (simp add: p)
      next
        case False
        then have p: "(?T + i) mod ?C = ?T + i - ?C" using tc i lc by (simp add: mod_once)
        have "?T + i - ?C < unat ?ne" using n8 i False by simp
        with pc nw show ?thesis by (simp add: p)
      qed
    qed
    with send_len_content [OF t c8 lm s1 i] show "mem2 ! ((?T + i) mod ?C) = size_t_bytes len ! i"
      by simp
  qed
  have len2: "length mem2 = ?C" using pc by simp
  from first pay pre len2 show ?thesis by (simp add: m)
qed


theorem send_bytes_post_fails_witness:
  "unlocked
     \<lparr>lock = \<lparr>sem_count = 1, value_max = 1\<rparr>, n_unread = \<lparr>sem_count = 5, value_max = 5\<rparr>,
      capacity = 32, shared_mem = replicate 32 0, start = 0, end_off = 0, full = False\<rparr>
   \<and> send_bytes (bytes_at [65, 66]) 2
       \<lparr>lock = \<lparr>sem_count = 1, value_max = 1\<rparr>, n_unread = \<lparr>sem_count = 4, value_max = 5\<rparr>,
        capacity = 32, shared_mem = replicate 32 0, start = 0, end_off = 0, full = False\<rparr>
     = Returns ()
       \<lparr>lock = \<lparr>sem_count = 1, value_max = 1\<rparr>, n_unread = \<lparr>sem_count = 5, value_max = 5\<rparr>,
        capacity = 32,
        shared_mem = [2, 0, 0, 0, 0, 0, 0, 0, 65, 66, 0, 0, 0, 0, 0, 0, 0, 0,
                      0, 0, 0, 0, 0, 0, 0, 0, 0, 0, 0, 0, 0, 0],
        start = 0, end_off = 10, full = False\<rparr>
   \<and> send_bytes (bytes_at [65, 66]) 2
       \<lparr>lock = \<lparr>sem_count = 1, value_max = 1\<rparr>, n_unread = \<lparr>sem_count = 5, value_max = 5\<rparr>,
        capacity = 32, shared_mem = replicate 32 0, start = 0, end_off = 0, full = False\<rparr>
     = Throws Runtime_error
       \<lparr>lock = \<lparr>sem_count = 1, value_max = 1\<rparr>, n_unread = \<lparr>sem_count = 5, value_max = 5\<rparr>,
        capacity = 32,
        shared_mem = [2, 0, 0, 0, 0, 0, 0, 0, 65, 66, 0, 0, 0, 0, 0, 0, 0, 0,
                      0, 0, 0, 0, 0, 0, 0, 0, 0, 0, 0, 0, 0, 0],
        start = 0, end_off = 10, full = False\<rparr>"
proof -
  let ?ch = "\<lparr>lock = \<lparr>sem_count = 1, value_max = 1\<rparr>, n_unread = \<lparr>sem_count = 5, value_max = 5\<rparr>,
      capacity = 32, shared_mem = replicate 32 0, start = 0, end_off = 0, full = False\<rparr>"
  let ?s = "\<lparr>sem_count = 4, value_max = 5\<rparr>"
  let ?ch' = "\<lparr>lock = \<lparr>sem_count = 1, value_max = 1\<rparr>, n_unread = \<lparr>sem_count = 5, value_max = 5\<rparr>,
        capacity = 32,
        shared_mem = [2, 0, 0, 0, 0, 0, 0, 0, 65, 66, 0, 0, 0, 0, 0, 0, 0, 0,
                      0, 0, 0, 0, 0, 0, 0, 0, 0, 0, 0, 0, 0, 0],
        start = 0, end_off = 10, full = False\<rparr>"
  have h1: "unlocked ?ch" by (simp add: unlocked_def)
  have h5: "send_bytes (bytes_at [65, 66]) 2 (?ch\<lparr>n_unread := ?s\<rparr>) = Returns () ?ch'"
    by code_simp
  from send_bytes_post_fails [OF h1 _ _ _ h5] h1 h5 show ?thesis by simp
qed

section \<open>Filling a new channel\<close>

lemma available_space_from_0:
  assumes "start ch = 0" and "\<not> full ch" and "unat (end_off ch) \<le> unat (capacity ch)"
  shows "unat (available_space ch) = unat (capacity ch) - unat (end_off ch)"
proof (cases "end_off ch = 0")
  case True
  with assms show ?thesis by (simp add: available_space_def)
next
  case False
  then have "0 < end_off ch" by (simp add: word_greater_zero_iff)
  with assms show ?thesis
    by (simp add: available_space_def Let_def unat_sub word_le_nat_alt)
qed

text \<open>
  One send on a channel that has seen no receive, when the frame ends at the capacity
  or leaves 8 bytes free behind it: the call returns, the bytes before \<open>tail\<close> stay, the
  frame lies at \<open>tail\<close>, and the channel is full exactly when the frame ends at the
  capacity.
\<close>

lemma send_step:
  assumes lf: "unlocked ch" and st: "start ch = 0" and nf: "\<not> full ch"
    and lm: "length (shared_mem ch) = unat (capacity ch)"
    and len: "len \<noteq> 0"
    and room: "sem_count (n_unread ch) < value_max (n_unread ch)"
    and fit: "unat (end_off ch) + 8 + unat len = unat (capacity ch)
              \<or> unat (end_off ch) + 16 + unat len \<le> unat (capacity ch)"
  shows "\<exists>ch'. send_bytes bytes len ch = Returns () ch'
      \<and> lock ch' = lock ch \<and> capacity ch' = capacity ch \<and> start ch' = 0
      \<and> n_unread ch' = (n_unread ch)\<lparr>sem_count := sem_count (n_unread ch) + 1\<rparr>
      \<and> length (shared_mem ch') = unat (capacity ch)
      \<and> take (unat (end_off ch)) (shared_mem ch') = take (unat (end_off ch)) (shared_mem ch)
      \<and> take (8 + unat len) (drop (unat (end_off ch)) (shared_mem ch'))
          = size_t_bytes len @ fetch bytes 0 (unat len)
      \<and> full ch' = (unat (end_off ch) + 8 + unat len = unat (capacity ch))
      \<and> unat (end_off ch') =
          (if unat (end_off ch) + 8 + unat len = unat (capacity ch) then 0
           else unat (end_off ch) + 8 + unat len)"
proof -
  let ?T = "unat (end_off ch)" and ?C = "unat (capacity ch)" and ?L = "unat len"
  let ?mem = "shared_mem ch"
  have l: "0 < ?L" using len by (simp add: unat_gt_0)
  have le: "?T + 8 + ?L \<le> ?C" using fit by auto
  have c0: "capacity ch \<noteq> 0" using le l by (auto simp: unat_eq_zero [symmetric])
  have av: "unat (available_space ch) = ?C - ?T"
    using available_space_from_0 [OF st nf] le by simp
  have n: "unat (8 + len) = 8 + ?L"
    using unat_plus_le [of 8 len "capacity ch"] le by simp
  have fits: "\<not> 8 + len > available_space ch"
    using le by (simp add: word_less_nat_alt av n)
  have exact: "(8 + len = available_space ch) = (?T + 8 + ?L = ?C)"
    using le by (auto simp: word_unat_eq_iff av n)
  let ?mem1 = "take ?T ?mem @ size_t_bytes len @ drop (?T + 8) ?mem"
  have s1: "send_len (capacity ch) (end_off ch) len ?mem = Some ?mem1"
    using send_len_nowrap [of "end_off ch" "capacity ch" ?mem len] le l lm by simp
  have lm1: "length ?mem1 = ?C" using le lm by simp
  let ?ne = "(end_off ch + 8) mod capacity ch"
  have u8: "unat (end_off ch + 8) = ?T + 8"
    using unat_plus_8 [of "end_off ch" "capacity ch"] le by simp
  have ne: "unat ?ne = ?T + 8" using le l by (simp add: unat_mod u8)
  have ul: "unat (?ne + len) = ?T + 8 + ?L"
    using unat_plus_le [of ?ne len "capacity ch"] le ne by simp
  have ne': "unat ((?ne + len) mod capacity ch) = (if ?T + 8 + ?L = ?C then 0 else ?T + 8 + ?L)"
    using le by (simp add: unat_mod ul)
  have p: "post (n_unread ch) = Inr ((n_unread ch)\<lparr>sem_count := sem_count (n_unread ch) + 1\<rparr>)"
    using room by (simp add: post_def)
  show ?thesis
  proof (cases "?T + 8 + ?L = ?C")
    case True
    have s2: "send_payload (capacity ch) ?ne bytes len (8 + len) ?mem1
                = Some (take (?T + 8) ?mem1 @ fetch bytes 0 ?L)"
      using send_payload_exact [of ?ne len "capacity ch" ?mem1 bytes "8 + len"] True ne len lm1
      by simp
    show ?thesis
      unfolding send_bytes_unlocked [OF lf len]
      using fits c0 s1 s2 p exact True ne' lm le
      by (simp add: st nf)
  next
    case False
    with fit have r: "?T + 16 + ?L \<le> ?C" by simp
    have s2: "send_payload (capacity ch) ?ne bytes len (8 + len) ?mem1
                = Some (take (?T + 8) ?mem1 @ fetch bytes 0 (8 + ?L)
                        @ drop (?T + 8 + (8 + ?L)) ?mem1)"
      using send_payload_nowrap [of ?ne len "capacity ch" ?mem1 bytes] r ne len lm1
      by simp
    show ?thesis
      unfolding send_bytes_unlocked [OF lf len]
      using fits c0 s1 s2 p exact False ne' lm r
      by (simp add: st nf take_fetch)
  qed
qed

lemma frame_size_sum_pos:
  assumes "frames \<noteq> []" and "\<forall>f \<in> set frames. snd f \<noteq> 0"
  shows "9 \<le> sum_list (map (frame_size \<circ> snd) frames)"
proof -
  from assms(1) obtain f fs where e: "frames = f # fs" by (cases frames) auto
  with assms(2) have "snd f \<noteq> 0" by simp
  then have "0 < unat (snd f)" by (simp add: unat_gt_0)
  then show ?thesis by (simp add: e frame_size_def)
qed

text \<open>
  Sends that fill the rest of the region exactly, on a channel that has seen no
  receive: every send but the last leaves room for a whole frame, hence 8 free bytes
  behind its payload, and the last one ends at the capacity.
\<close>

lemma send_frames:
  assumes "frames \<noteq> []"
    and "unlocked ch" and "start ch = 0" and "\<not> full ch"
    and "length (shared_mem ch) = unat (capacity ch)"
    and "\<forall>f \<in> set frames. snd f \<noteq> 0"
    and "unat (end_off ch) + sum_list (map (frame_size \<circ> snd) frames) = unat (capacity ch)"
    and "sem_count (n_unread ch) + length frames \<le> value_max (n_unread ch)"
  shows "\<exists>ch'. run (map (\<lambda>(b, l). Send b l) frames) ch = Some (map (Sent \<circ> snd) frames, ch')
      \<and> lock ch' = lock ch \<and> capacity ch' = capacity ch
      \<and> start ch' = 0 \<and> end_off ch' = 0 \<and> full ch'
      \<and> length (shared_mem ch') = unat (capacity ch)
      \<and> take (unat (end_off ch)) (shared_mem ch') = take (unat (end_off ch)) (shared_mem ch)
      \<and> take (frame_size (snd (hd frames))) (drop (unat (end_off ch)) (shared_mem ch'))
          = size_t_bytes (snd (hd frames)) @ fetch (fst (hd frames)) 0 (unat (snd (hd frames)))
      \<and> sem_count (n_unread ch') = sem_count (n_unread ch) + length frames
      \<and> value_max (n_unread ch') = value_max (n_unread ch)"
  using assms
proof (induction frames arbitrary: ch rule: list_nonempty_induct)
  case (single f)
  obtain b l where f: "f = (b, l)" by (cases f)
  from single f have l: "l \<noteq> 0"
    and fit: "unat (end_off ch) + 8 + unat l = unat (capacity ch)"
    and room: "sem_count (n_unread ch) < value_max (n_unread ch)"
    by (simp_all add: frame_size_def)
  from send_step [OF single(1,2,3,4) l room, of b] fit
  obtain ch' where "send_bytes b l ch = Returns () ch'"
      "lock ch' = lock ch" "capacity ch' = capacity ch" "start ch' = 0"
      "n_unread ch' = (n_unread ch)\<lparr>sem_count := sem_count (n_unread ch) + 1\<rparr>"
      "length (shared_mem ch') = unat (capacity ch)"
      "take (unat (end_off ch)) (shared_mem ch') = take (unat (end_off ch)) (shared_mem ch)"
      "take (8 + unat l) (drop (unat (end_off ch)) (shared_mem ch'))
          = size_t_bytes l @ fetch b 0 (unat l)"
      "full ch'" "unat (end_off ch') = 0"
    by auto
  then show ?case
    by (simp add: f frame_size_def unat_eq_zero)
next
  case (cons f fs)
  obtain b l where f: "f = (b, l)" by (cases f)
  from cons.prems f have l: "l \<noteq> 0" and fs0: "\<forall>f \<in> set fs. snd f \<noteq> 0" by simp_all
  from frame_size_sum_pos [OF cons.hyps fs0]
  have nine: "9 \<le> sum_list (map (frame_size \<circ> snd) fs)" .
  from cons.prems(6) f
  have total: "unat (end_off ch) + 8 + unat l + sum_list (map (frame_size \<circ> snd) fs)
                 = unat (capacity ch)"
    by (simp add: frame_size_def comp_def)
  with nine have fit: "unat (end_off ch) + 16 + unat l \<le> unat (capacity ch)"
    and ne: "unat (end_off ch) + 8 + unat l \<noteq> unat (capacity ch)" by simp_all
  from cons.prems(7) have room: "sem_count (n_unread ch) < value_max (n_unread ch)" by simp
  from send_step [OF cons.prems(1,2,3,4) l room, of b] fit ne
  obtain ch1 where s: "send_bytes b l ch = Returns () ch1"
      and lk: "lock ch1 = lock ch" and cp: "capacity ch1 = capacity ch" and st: "start ch1 = 0"
      and nu: "n_unread ch1 = (n_unread ch)\<lparr>sem_count := sem_count (n_unread ch) + 1\<rparr>"
      and lm: "length (shared_mem ch1) = unat (capacity ch)"
      and pre: "take (unat (end_off ch)) (shared_mem ch1) = take (unat (end_off ch)) (shared_mem ch)"
      and fr: "take (8 + unat l) (drop (unat (end_off ch)) (shared_mem ch1))
          = size_t_bytes l @ fetch b 0 (unat l)"
      and nf: "\<not> full ch1" and e1: "unat (end_off ch1) = unat (end_off ch) + 8 + unat l"
    by auto
  have lf1: "unlocked ch1" using cons.prems(1) lk by (simp add: unlocked_def)
  have lm1: "length (shared_mem ch1) = unat (capacity ch1)" using lm cp by simp
  have tot1: "unat (end_off ch1) + sum_list (map (frame_size \<circ> snd) fs) = unat (capacity ch1)"
    using total e1 cp by simp
  have room1: "sem_count (n_unread ch1) + length fs \<le> value_max (n_unread ch1)"
    using cons.prems(7) nu by simp
  from cons.IH [OF lf1 st nf lm1 fs0 tot1 room1]
  obtain ch' where r: "run (map (\<lambda>(b, l). Send b l) fs) ch1 = Some (map (Sent \<circ> snd) fs, ch')"
      and lk': "lock ch' = lock ch1" and cp': "capacity ch' = capacity ch1"
      and st': "start ch' = 0" and en': "end_off ch' = 0" and fu': "full ch'"
      and lm': "length (shared_mem ch') = unat (capacity ch1)"
      and pre': "take (unat (end_off ch1)) (shared_mem ch')
                   = take (unat (end_off ch1)) (shared_mem ch1)"
      and cnt': "sem_count (n_unread ch') = sem_count (n_unread ch1) + length fs"
      and vm': "value_max (n_unread ch') = value_max (n_unread ch1)"
    by blast
  have p0: "take (unat (end_off ch)) (shared_mem ch') = take (unat (end_off ch)) (shared_mem ch1)"
    using take_drop_prefix [OF pre', of 0 "unat (end_off ch)"] e1 by simp
  have p1: "take (8 + unat l) (drop (unat (end_off ch)) (shared_mem ch'))
              = take (8 + unat l) (drop (unat (end_off ch)) (shared_mem ch1))"
    using take_drop_prefix [OF pre', of "unat (end_off ch)" "8 + unat l"] e1 by simp
  have "run (map (\<lambda>(b, l). Send b l) (f # fs)) ch = Some (map (Sent \<circ> snd) (f # fs), ch')"
    using s r by (simp add: f)
  then show ?case
    using lk lk' cp cp' st' en' fu' lm' p0 pre p1 fr cnt' vm' nu
    by (simp add: f frame_size_def)
qed

text \<open>
  A receive on a channel whose oldest frame lies whole at the offset 0 and whose \<open>tail\<close>
  is 0: the payload comes back, and the space available afterwards is the size of that
  frame.
\<close>

lemma receive_first:
  assumes lf: "unlocked ch" and st: "start ch = 0" and en: "end_off ch = 0"
    and lm: "length (shared_mem ch) = unat (capacity ch)"
    and cnt: "0 < sem_count (n_unread ch)"
    and len: "len \<noteq> 0" and fit: "8 + unat len \<le> unat (capacity ch)"
    and fr: "take (8 + unat len) (shared_mem ch) = size_t_bytes len @ payload"
  shows "\<exists>ch'. receive_bytes block ch = Returns payload ch'
      \<and> \<not> full ch' \<and> unat (available_space ch') = 8 + unat len
      \<and> sem_count (n_unread ch') + 1 = sem_count (n_unread ch)"
proof -
  let ?C = "unat (capacity ch)" and ?L = "unat len" and ?mem = "shared_mem ch"
  have l: "0 < ?L" using len by (simp add: unat_gt_0)
  have c0: "capacity ch \<noteq> 0" using fit by (auto simp: unat_eq_zero [symmetric])
  have "take 8 (take (8 + ?L) ?mem) = size_t_bytes len" unfolding fr by simp
  then have hd: "take 8 ?mem = size_t_bytes len" by (simp add: min_def)
  have "drop 8 (take (8 + ?L) ?mem) = payload" unfolding fr by simp
  then have pl: "take ?L (drop 8 ?mem) = payload" by (simp add: drop_take)
  have r1: "receive_len (capacity ch) 0 ?mem = Some (size_t_bytes len)"
    using receive_len_nowrap [of 0 "capacity ch" ?mem] fit l lm hd by simp
  have u8: "unat ((0 + 8) mod capacity ch) = 8"
    using fit l by (simp add: unat_mod)
  then have ns: "(8 :: size_t) mod capacity ch = 8" by (simp add: word_unat_eq_iff)
  have n: "unat (8 + len) = 8 + ?L"
    using unat_plus_le [of 8 len "capacity ch"] fit by simp
  have r2: "receive_payload (capacity ch) 8 len ?mem = Some payload"
  proof (cases "8 + ?L = ?C")
    case True
    then show ?thesis
      using receive_payload_exact [of 8 len "capacity ch" ?mem] len lm pl by simp
  next
    case False
    with fit show ?thesis
      using receive_payload_nowrap [of 8 len "capacity ch" ?mem] len lm pl by simp
  qed
  let ?ch' = "\<lambda>s. ch\<lparr>n_unread := s, full := False, start := (8 + len) mod capacity ch\<rparr>"
  have av: "\<And>s. unat (available_space (?ch' s)) = 8 + ?L"
  proof (cases "8 + ?L = ?C")
    case True
    then have "8 + len = capacity ch" by (simp add: word_unat_eq_iff n)
    then show "\<And>s. unat (available_space (?ch' s)) = 8 + ?L"
      using True by (simp add: available_space_def en)
  next
    case False
    with fit have "unat ((8 + len) mod capacity ch) = 8 + ?L" by (simp add: unat_mod n)
    then have "0 < (8 + len) mod capacity ch" by (simp add: word_less_nat_alt)
    then show "\<And>s. unat (available_space (?ch' s)) = 8 + ?L"
      using \<open>unat ((8 + len) mod capacity ch) = 8 + ?L\<close>
      by (simp add: available_space_def en Let_def)
  qed
  have lf': "\<And>s. unlocked (ch\<lparr>n_unread := s\<rparr>)" using lf by (simp add: unlocked_def)
  have rl: "\<And>s. receive_locked (ch\<lparr>n_unread := s\<rparr>) = Returns payload (?ch' s)"
    unfolding receive_locked_unlocked [OF lf']
    using c0 r1 r2 by (simp add: st ns size_t_roundtrip)
  show ?thesis
    using cnt av rl
    by (cases block) (simp_all add: receive_bytes_def wait_def trywait_def)
qed

text \<open>
  On a new channel, sends of frames with \<open>len > 0\<close> whose sizes \<open>8 + len\<close> add up to
  the capacity, no more of them than the semaphore can count, all return; then \<open>full\<close>
  is true and the available space is 0. The receive that follows, blocking or not,
  returns the payload of the first frame; after it \<open>full\<close> is false and the available
  space is the size of that frame.
\<close>

theorem full_after_capacity_bytes:
  assumes "frames \<noteq> []"
    and "\<forall>f \<in> set frames. snd f \<noteq> 0"
    and "sum_list (map (frame_size \<circ> snd) frames) = unat sz"
    and "length frames \<le> vmax"
  shows "\<exists>ch1 ch2.
      run (map (\<lambda>(b, l). Send b l) frames) (channel_init vmax sz)
        = Some (map (Sent \<circ> snd) frames, ch1)
      \<and> full ch1 \<and> available_space ch1 = 0
      \<and> receive_bytes block ch1
          = Returns (fetch (fst (hd frames)) 0 (unat (snd (hd frames)))) ch2
      \<and> \<not> full ch2
      \<and> unat (available_space ch2) = frame_size (snd (hd frames))"
proof -
  let ?ch0 = "channel_init vmax sz"
  from assms(1) obtain f fs where e: "frames = f # fs" by (cases frames) auto
  have v: "0 < vmax" using assms(1,4) by (cases frames) auto
  have lf: "unlocked ?ch0" using v by (simp add: unlocked_def channel_init_unfold)
  have a: "start ?ch0 = 0" "\<not> full ?ch0" "length (shared_mem ?ch0) = unat (capacity ?ch0)"
    "unat (end_off ?ch0) + sum_list (map (frame_size \<circ> snd) frames) = unat (capacity ?ch0)"
    "sem_count (n_unread ?ch0) + length frames \<le> value_max (n_unread ?ch0)"
    using assms(3,4) by (simp_all add: channel_init_unfold)
  from send_frames [OF assms(1) lf a(1,2,3) assms(2) a(4,5)]
  obtain ch1 where r: "run (map (\<lambda>(b, l). Send b l) frames) ?ch0
                          = Some (map (Sent \<circ> snd) frames, ch1)"
      and lk: "lock ch1 = lock ?ch0" and cp: "capacity ch1 = capacity ?ch0"
      and st: "start ch1 = 0" and en: "end_off ch1 = 0" and fu: "full ch1"
      and lm: "length (shared_mem ch1) = unat (capacity ?ch0)"
      and fr: "take (frame_size (snd (hd frames))) (drop (unat (end_off ?ch0)) (shared_mem ch1))
          = size_t_bytes (snd (hd frames)) @ fetch (fst (hd frames)) 0 (unat (snd (hd frames)))"
      and cnt: "sem_count (n_unread ch1) = sem_count (n_unread ?ch0) + length frames"
    by blast
  have lf1: "unlocked ch1" using lf lk by (simp add: unlocked_def)
  have av: "available_space ch1 = 0" using st en fu by (simp add: available_space_def)
  have lm1: "length (shared_mem ch1) = unat (capacity ch1)" using lm cp by simp
  have cnt1: "0 < sem_count (n_unread ch1)" using cnt assms(1) by simp
  have l: "snd (hd frames) \<noteq> 0" using assms(2) e by simp
  have fit: "8 + unat (snd (hd frames)) \<le> unat (capacity ch1)"
    using assms(3) e cp by (simp add: frame_size_def channel_init_unfold)
  have fr1: "take (8 + unat (snd (hd frames))) (shared_mem ch1)
          = size_t_bytes (snd (hd frames)) @ fetch (fst (hd frames)) 0 (unat (snd (hd frames)))"
    using fr by (simp add: frame_size_def channel_init_unfold)
  from receive_first [OF lf1 st en lm1 cnt1 l fit fr1, of block]
  obtain ch2 where "receive_bytes block ch1
          = Returns (fetch (fst (hd frames)) 0 (unat (snd (hd frames)))) ch2"
      "\<not> full ch2" "unat (available_space ch2) = 8 + unat (snd (hd frames))"
    by blast
  with r fu av show ?thesis by (auto simp: frame_size_def)
qed

theorem full_after_capacity_bytes_witness:
  "\<exists>ch1 ch2.
      run [Send (bytes_at [1, 2, 3, 4, 5, 6, 7, 8]) 8, Send (bytes_at [11, 12, 13]) 3,
           Send (bytes_at [21, 22, 23, 24, 25]) 5]
        (channel_init 100 40)
        = Some ([Sent 8, Sent 3, Sent 5], ch1)
      \<and> full ch1 \<and> available_space ch1 = 0
      \<and> receive_bytes False ch1 = Returns [1, 2, 3, 4, 5, 6, 7, 8] ch2
      \<and> \<not> full ch2
      \<and> unat (available_space ch2) = 16"
  using full_after_capacity_bytes
    [of "[(bytes_at [1, 2, 3, 4, 5, 6, 7, 8], 8), (bytes_at [11, 12, 13], 3),
          (bytes_at [21, 22, 23, 24, 25], 5)]" 40 100 False]
  by (simp add: frame_size_def fetch_def bytes_at_def upt_rec)

section \<open>Filling a channel that has been used\<close>

text \<open>
  C7: the claim is that once frames of \<open>capacity\<close> bytes in all are sent with no receive,
  \<open>full\<close> is true and no space is available, and that after one receive \<open>full\<close> is false
  and the available space is the size of the frame removed. On a channel of 32 bytes
  that is empty with \<open>head = tail = 16\<close> after one send and one receive, two frames of
  16 bytes are sent: \<open>full\<close> is true and the available space is 0. The payload copy of
  the second send has the size \<open>n = 16\<close> and writes the offsets 8 to 23, over the
  length prefix of the first frame at the offsets 16 to 23. The receive that follows
  reads the length 3 there and returns three bytes; the available space after it is 11,
  not the 16 bytes of the frame that was sent first.
\<close>

theorem refill_then_receive:
  "run [Send (bytes_at [1, 2, 3, 4, 5, 6, 7, 8]) 8,
        Receive False,
        Send (bytes_at [11, 12, 13, 14, 15, 16, 17, 18]) 8,
        Send (bytes_at [21, 22, 23, 24, 25, 26, 27, 28, 3]) 8]
     (channel_init 100 32)
   = Some ([Sent 8, Received [1, 2, 3, 4, 5, 6, 7, 8], Sent 8, Sent 8],
       \<lparr>lock = \<lparr>sem_count = 1, value_max = 100\<rparr>,
        n_unread = \<lparr>sem_count = 2, value_max = 100\<rparr>,
        capacity = 32,
        shared_mem = [8, 0, 0, 0, 0, 0, 0, 0, 21, 22, 23, 24, 25, 26, 27, 28,
                      3, 0, 0, 0, 0, 0, 0, 0, 11, 12, 13, 14, 15, 16, 17, 18],
        start = 16, end_off = 16, full = True\<rparr>)
   \<and> frame_size 8 + frame_size 8 = 32
   \<and> available_space
         \<lparr>lock = \<lparr>sem_count = 1, value_max = 100\<rparr>,
          n_unread = \<lparr>sem_count = 2, value_max = 100\<rparr>,
          capacity = 32,
          shared_mem = [8, 0, 0, 0, 0, 0, 0, 0, 21, 22, 23, 24, 25, 26, 27, 28,
                        3, 0, 0, 0, 0, 0, 0, 0, 11, 12, 13, 14, 15, 16, 17, 18],
          start = 16, end_off = 16, full = True\<rparr>
       = 0
   \<and> receive_bytes False
         \<lparr>lock = \<lparr>sem_count = 1, value_max = 100\<rparr>,
          n_unread = \<lparr>sem_count = 2, value_max = 100\<rparr>,
          capacity = 32,
          shared_mem = [8, 0, 0, 0, 0, 0, 0, 0, 21, 22, 23, 24, 25, 26, 27, 28,
                        3, 0, 0, 0, 0, 0, 0, 0, 11, 12, 13, 14, 15, 16, 17, 18],
          start = 16, end_off = 16, full = True\<rparr>
       = Returns [11, 12, 13]
           \<lparr>lock = \<lparr>sem_count = 1, value_max = 100\<rparr>,
            n_unread = \<lparr>sem_count = 1, value_max = 100\<rparr>,
            capacity = 32,
            shared_mem = [8, 0, 0, 0, 0, 0, 0, 0, 21, 22, 23, 24, 25, 26, 27, 28,
                          3, 0, 0, 0, 0, 0, 0, 0, 11, 12, 13, 14, 15, 16, 17, 18],
            start = 27, end_off = 16, full = False\<rparr>
   \<and> unat (available_space
         \<lparr>lock = \<lparr>sem_count = 1, value_max = 100\<rparr>,
          n_unread = \<lparr>sem_count = 1, value_max = 100\<rparr>,
          capacity = 32,
          shared_mem = [8, 0, 0, 0, 0, 0, 0, 0, 21, 22, 23, 24, 25, 26, 27, 28,
                        3, 0, 0, 0, 0, 0, 0, 0, 11, 12, 13, 14, 15, 16, 17, 18],
          start = 27, end_off = 16, full = False\<rparr>)
       = 11
   \<and> frame_size 8 = 16"
  by code_simp

end
